theory Spec2Isabelle
  imports Main
begin

section \<open>C strings and characters\<close>

text \<open>
  A C string is modelled by the characters stored in memory; a read at or past the end of
  the modelled list yields the NUL terminator, so an Isabelle string \<open>s\<close> without NUL
  characters stands for the C string whose \<open>strlen\<close> is \<open>length s\<close>.  A pointer that
  may be \<open>NULL\<close> is an \<open>option\<close>.
\<close>

definition NUL :: char where
  "NUL = CHR 0x00"

definition rd :: "string \<Rightarrow> nat \<Rightarrow> char" where
  "rd s i = (if i < length s then s ! i else NUL)"

definition strlen :: "string \<Rightarrow> nat" where
  "strlen s = length (takeWhile (\<lambda>c. c \<noteq> NUL) s)"

text \<open>\<open>isalnum\<close> of the C locale: decimal digits and the 52 ASCII letters.\<close>

definition isalnum :: "char \<Rightarrow> bool" where
  "isalnum c = (let n = (of_char c :: nat) in
     (48 \<le> n \<and> n \<le> 57) \<or> (65 \<le> n \<and> n \<le> 90) \<or> (97 \<le> n \<and> n \<le> 122))"

section \<open>Grammar validators\<close>

text \<open>
  \<open>is_subject_valid\<close>, lines 40-74.  The \<open>for\<close> loop runs \<open>pos\<close> from 0 to \<open>len\<close>; its
  increment expression \<open>last = subject[pos++]\<close> is executed after \<open>break\<close> out of the
  \<open>switch\<close> and after \<open>continue\<close> alike.
\<close>

function is_subject_valid_loop :: "string \<Rightarrow> nat \<Rightarrow> nat \<Rightarrow> char \<Rightarrow> bool" where
  "is_subject_valid_loop subject len pos lastc =
     (if pos < len then
        (let c = rd subject pos in
         if c = CHR ''>'' then
           (if rd subject (pos + 1) \<noteq> NUL then False
            else is_subject_valid_loop subject len (pos + 1) c)
         else if c = CHR ''.'' \<or> c = CHR ''*'' then
           (if lastc = c then False
            else is_subject_valid_loop subject len (pos + 1) c)
         else if isalnum c then is_subject_valid_loop subject len (pos + 1) c
         else False)
      else True)"
  by pat_completeness auto
termination
  by (relation "measure (\<lambda>(subject, len, pos, lastc). len - pos)") auto

definition is_subject_valid :: "string option \<Rightarrow> nat \<Rightarrow> bool" where
  "is_subject_valid subject len =
     (case subject of None \<Rightarrow> False
      | Some s \<Rightarrow> is_subject_valid_loop s len 0 NUL)"

text \<open>\<open>is_sid_valid\<close>, lines 76-91.\<close>

function is_sid_valid_loop :: "string \<Rightarrow> nat \<Rightarrow> nat \<Rightarrow> bool" where
  "is_sid_valid_loop sid len pos =
     (if pos < len then
        (if \<not> isalnum (rd sid pos) then False
         else is_sid_valid_loop sid len (pos + 1))
      else True)"
  by pat_completeness auto
termination
  by (relation "measure (\<lambda>(sid, len, pos). len - pos)") auto

definition is_sid_valid :: "string option \<Rightarrow> nat \<Rightarrow> bool" where
  "is_sid_valid sid len =
     (case sid of None \<Rightarrow> False | Some s \<Rightarrow> is_sid_valid_loop s len 0)"

section \<open>Error numbers and machine sizes\<close>

text \<open>
  The \<open>errno\<close> values of the kernel's C library (\<open>errno.h\<close> is not part of the
  sample); functions return their negation.  \<open>size_t\<close> and \<open>unsigned long\<close> are
  32 bits wide on the target.
\<close>

definition EPERM :: int where "EPERM = 1"
definition ENOENT :: int where "ENOENT = 2"
definition ENOMEM :: int where "ENOMEM = 12"
definition EINVAL :: int where "EINVAL = 22"
definition ERANGE :: int where "ERANGE = 34"
definition ENOTSUP :: int where "ENOTSUP = 35"

definition SIZE_MAX :: int where
  "SIZE_MAX = 4294967295"

text \<open>Subtraction of two \<open>size_t\<close> (or of pointers, converted to \<open>size_t\<close>): it wraps.\<close>

definition size_sub :: "nat \<Rightarrow> nat \<Rightarrow> nat" where
  "size_sub a b = nat ((int a - int b) mod (SIZE_MAX + 1))"

section \<open>String helpers\<close>

text \<open>
  A buffer is the list of its bytes and a pointer into it is an index.  \<open>strchr\<close> scans
  from the pointer to the first NUL.
\<close>

fun strchr_from :: "string \<Rightarrow> char \<Rightarrow> nat option" where
  "strchr_from [] c = (if c = NUL then Some 0 else None)"
| "strchr_from (x # xs) c =
     (if x = c then Some 0
      else if x = NUL then None
      else map_option Suc (strchr_from xs c))"

definition strchr :: "string \<Rightarrow> nat \<Rightarrow> char \<Rightarrow> nat option" where
  "strchr m p c = map_option (\<lambda>i. p + i) (strchr_from (drop p m) c)"

text \<open>\<open>char_in_set\<close>, lines 190-201.\<close>

fun char_in_set :: "char \<Rightarrow> string \<Rightarrow> bool" where
  "char_in_set chr [] = False"
| "char_in_set chr (x # xs) =
     (if x = NUL then False else if x = chr then True else char_in_set chr xs)"

text \<open>
  The sample's own \<open>strsep\<close>, lines 203-228: for each delimiter in turn it looks for the
  first occurrence in the string, overwrites it with NUL, skips the delimiters that follow
  and returns the pointer reached.  The result is the updated buffer and that pointer.
\<close>

function skip_delims :: "string \<Rightarrow> nat \<Rightarrow> string \<Rightarrow> nat" where
  "skip_delims m ptr delims =
     (if rd m ptr \<noteq> NUL \<and> char_in_set (rd m ptr) delims
      then skip_delims m (ptr + 1) delims else ptr)"
  by pat_completeness auto
termination
  by (relation "measure (\<lambda>(m, ptr, delims). length m - ptr)") (auto simp: rd_def split: if_splits)

fun strsep_loop :: "string \<Rightarrow> nat \<Rightarrow> string \<Rightarrow> string \<Rightarrow> string \<times> nat option" where
  "strsep_loop m strp [] delims = (m, None)"
| "strsep_loop m strp (delim # rest) delims =
     (if delim = NUL then (m, None)
      else case strchr m strp delim of
        Some ptr \<Rightarrow>
          (let m' = m[ptr := NUL] in (m', Some (skip_delims m' (ptr + 1) delims)))
      | None \<Rightarrow> strsep_loop m strp rest delims)"

definition strsep :: "string \<Rightarrow> nat option \<Rightarrow> string \<Rightarrow> string \<times> nat option" where
  "strsep m strp delims =
     (case strp of None \<Rightarrow> (m, None) | Some p \<Rightarrow> strsep_loop m p delims delims)"

text \<open>
  \<open>strncmp\<close> of the C library on two strings given by their bytes: at most \<open>n\<close>
  characters are compared and the comparison stops after a NUL.
\<close>

fun strncmp :: "string \<Rightarrow> string \<Rightarrow> nat \<Rightarrow> int" where
  "strncmp a b 0 = 0"
| "strncmp a b (Suc n) =
     (let x = rd a 0; y = rd b 0 in
      if x \<noteq> y then int (of_char x) - int (of_char y)
      else if x = NUL then 0
      else strncmp (tl a) (tl b) n)"

text \<open>The C string that starts at a pointer, and the bytes of a pointer/length pair.\<close>

definition cstr :: "string \<Rightarrow> nat \<Rightarrow> string" where
  "cstr m p = takeWhile (\<lambda>c. c \<noteq> NUL) (drop p m)"

definition bytes_at :: "string \<Rightarrow> nat \<Rightarrow> nat \<Rightarrow> string" where
  "bytes_at m p n = take n (drop p m)"

text \<open>
  \<open>strtoul\<close> of the C library in base 10: leading white space, an optional sign, then
  decimal digits.  The result is the value, the end pointer and the \<open>errno\<close> it sets
  (0 when it sets none).  Without any digit the value is 0 and the end pointer is the start
  pointer; a value above \<open>ULONG_MAX\<close> gives \<open>ULONG_MAX\<close> and \<open>ERANGE\<close>.
\<close>

definition isspace :: "char \<Rightarrow> bool" where
  "isspace c = (let n = (of_char c :: nat) in n = 32 \<or> (9 \<le> n \<and> n \<le> 13))"

definition isdigit :: "char \<Rightarrow> bool" where
  "isdigit c = (let n = (of_char c :: nat) in 48 \<le> n \<and> n \<le> 57)"

fun parse_digits :: "string \<Rightarrow> nat \<Rightarrow> nat \<times> nat" where
  "parse_digits [] acc = (acc, 0)"
| "parse_digits (c # cs) acc =
     (if isdigit c then
        (let (v, k) = parse_digits cs (acc * 10 + (of_char c - 48)) in (v, Suc k))
      else (acc, 0))"

definition strtoul :: "string \<Rightarrow> nat \<Rightarrow> nat \<times> nat \<times> int" where
  "strtoul m nptr =
     (let q = nptr + length (takeWhile isspace (drop nptr m));
          neg = (rd m q = CHR ''-'');
          q1 = (if rd m q = CHR ''-'' \<or> rd m q = CHR ''+'' then q + 1 else q);
          (v, k) = parse_digits (drop q1 m) 0
      in if k = 0 then (0, nptr, 0)
         else if int v > SIZE_MAX then (nat SIZE_MAX, q1 + k, ERANGE)
         else (if neg then size_sub 0 v else v, q1 + k, 0))"

text \<open>\<open>snprintk\<close> with the format \<open>%zu\<close>: the decimal digits of the number.\<close>

function dec :: "nat \<Rightarrow> string" where
  "dec n = (if n < 10 then [char_of (48 + n)]
            else dec (n div 10) @ [char_of (48 + n mod 10)])"
  by pat_completeness auto
termination
  by (relation "measure id") auto

section \<open>Connection, collaborators and effects\<close>

text \<open>\<open>struct nats_info\<close>, lines 24-33, and the message handed to the application.\<close>

record nats_info =
  server_id :: "string option"
  version :: "string option"
  go :: "string option"
  host :: "string option"
  max_payload :: nat
  port :: nat
  ssl_required :: bool
  auth_required :: bool

record nats_msg =
  msg_subject :: string
  msg_sid :: "string option"
  msg_reply_to :: "string option"
  msg_payload :: string
  msg_payload_len :: nat

text \<open>
  What the sample calls but does not define: the packet functions of the network stack
  (whether \<open>net_nbuf_get_tx\<close> yields a buffer, whether \<open>net_nbuf_append\<close> accepts a
  segment, the status of \<open>net_context_send\<close>), the JSON library (\<open>json_obj_parse\<close> on
  the payload bytes, \<open>json_escape\<close> on a buffer's content and capacity) and the two
  callbacks of \<open>struct nats\<close>.  \<open>on_auth_required\<close> gets the capacities of the user and
  password buffers and yields its status and what it stored in them.
\<close>

record env =
  net_nbuf_get_tx :: bool
  net_nbuf_append :: "string \<Rightarrow> bool"
  net_context_send :: "string list \<Rightarrow> int"
  json_obj_parse :: "string \<Rightarrow> int \<times> nats_info"
  json_escape :: "string \<Rightarrow> nat \<Rightarrow> int \<times> string"
  on_auth_required :: "(nat \<Rightarrow> nat \<Rightarrow> int \<times> string \<times> string) option"
  on_message :: "nats_msg \<Rightarrow> int"

text \<open>
  The effects: every packet passed to \<open>net_context_send\<close>, as the list of its segments,
  and every message passed to \<open>on_message\<close>, both in order.
\<close>

record state =
  sent :: "string list list"
  delivered :: "nats_msg list"

text \<open>A call that dereferences \<open>NULL\<close> or writes outside an array has no result.\<close>

datatype 'a outcome = Returns 'a | Fault

text \<open>\<open>transmitv\<close>, lines 95-115, and \<open>transmit\<close>, lines 117-123.\<close>

fun append_all :: "env \<Rightarrow> string list \<Rightarrow> bool" where
  "append_all e [] = True"
| "append_all e (seg # iov) = (if \<not> net_nbuf_append e seg then False else append_all e iov)"

definition transmitv :: "env \<Rightarrow> state \<Rightarrow> string list \<Rightarrow> int \<times> state" where
  "transmitv e st iov =
     (if \<not> net_nbuf_get_tx e then (- ENOMEM, st)
      else if \<not> append_all e iov then (- ENOMEM, st)
      else (net_context_send e iov, st\<lparr>sent := sent st @ [iov]\<rparr>))"

definition transmit :: "env \<Rightarrow> state \<Rightarrow> string \<Rightarrow> int \<times> state" where
  "transmit e st buffer = transmitv e st [buffer]"

section \<open>Command handlers\<close>

text \<open>
  \<open>handle_server_info\<close>, lines 131-187.  The user and password buffers hold 32 and 64
  bytes.  The handlers get the command buffer and the payload as an index and a length.
\<close>

text \<open>The double quote, and the line terminator \<open>\r\n\<close>.\<close>

definition DQ :: char where
  "DQ = CHR 0x22"

definition CRLF :: string where
  "CRLF = [CHR 0x0D, CHR 0x0A]"

definition handle_server_info :: "env \<Rightarrow> state \<Rightarrow> string \<Rightarrow> nat \<Rightarrow> nat \<Rightarrow> int \<times> state" where
  "handle_server_info e st m payload len =
     (let (ret, info) = json_obj_parse e (bytes_at m payload len) in
      if ret < 0 then (- EINVAL, st)
      else if ssl_required info then (- ENOTSUP, st)
      else if \<not> auth_required info then (0, st)
      else case on_auth_required e of
        None \<Rightarrow> (- EPERM, st)
      | Some cb \<Rightarrow>
          (let (ret, user, pass) = cb 32 64 in
           if ret < 0 then (ret, st)
           else let (ret, user) = json_escape e user 32 in
             if ret < 0 then (ret, st)
             else let (ret, pass) = json_escape e pass 64 in
               if ret < 0 then (ret, st)
               else transmitv e st
                 [''CONNECT {'' @ [DQ] @ ''user'' @ [DQ] @ '':'' @ [DQ], user,
                  [DQ] @ '','' @ [DQ] @ ''pass'' @ [DQ] @ '':'' @ [DQ], pass,
                  [DQ] @ ''}'' @ CRLF]))"

text \<open>
  \<open>handle_server_msg\<close>, lines 230-280.  \<open>bytes\<close> is what \<open>strsep\<close> returns for the
  delimiter \<open>\r\<close>, the pointer behind the carriage return.  The comparison of the size with
  \<open>payload + len - end_ptr\<close> is unsigned.  \<open>strtoul\<close> always stores an end pointer,
  so the test for a \<open>NULL\<close> one never fires.  The message records the strings and the
  \<open>payload_len\<close> bytes the pointers of \<open>struct nats_msg\<close> refer to.
\<close>

definition handle_server_msg :: "env \<Rightarrow> state \<Rightarrow> string \<Rightarrow> nat \<Rightarrow> nat \<Rightarrow> int \<times> state" where
  "handle_server_msg e st m payload len =
     (let prev_end = rd m (payload + len);
          m0 = m[payload + len := NUL];
          (m1, sid) = strsep m0 (Some payload) [CHR '' '', CHR 0x09];
          (m2, reply_to) = strsep m1 sid [CHR '' '', CHR 0x09];
          (m3, bytes) = (if reply_to = None then strsep m2 sid [CHR 0x0D]
                         else strsep m2 reply_to [CHR 0x0D]);
          m4 = m3[payload + len := prev_end]
      in case bytes of
        None \<Rightarrow> (- EINVAL, st)
      | Some b \<Rightarrow>
          (let (payload_size, end_ptr, errno) = strtoul m4 b in
           if errno \<noteq> 0 then (- errno, st)
           else if payload_size \<ge> size_sub (payload + len) end_ptr then (- EINVAL, st)
           else let msg = \<lparr>msg_subject = cstr m4 payload,
                            msg_sid = map_option (cstr m4) sid,
                            msg_reply_to = map_option (cstr m4) reply_to,
                            msg_payload = bytes_at m4 (end_ptr + 2) payload_size,
                            msg_payload_len = payload_size\<rparr>
                in (on_message e msg, st\<lparr>delivered := delivered st @ [msg]\<rparr>)))"

text \<open>\<open>handle_server_ping\<close>, lines 282-287, and \<open>ignore\<close>, lines 289-298.\<close>

definition handle_server_ping :: "env \<Rightarrow> state \<Rightarrow> string \<Rightarrow> nat \<Rightarrow> nat \<Rightarrow> int \<times> state" where
  "handle_server_ping e st m payload len = transmit e st (''PONG'' @ CRLF)"

definition ignore :: "env \<Rightarrow> state \<Rightarrow> string \<Rightarrow> nat \<Rightarrow> nat \<Rightarrow> int \<times> state" where
  "ignore e st m payload len = (0, st)"

section \<open>Command dispatcher\<close>

text \<open>
  \<open>handle_server_cmd\<close>, lines 305-343, on the command buffer (\<open>cmd\<close> is its start).
  The table \<open>cmds\<close> pairs each operation with its handler; \<open>cmds_loop\<close> is the \<open>for\<close>
  loop over it, with \<open>len\<close> already replaced by \<open>payload - cmd\<close>.
\<close>

datatype handler = Handle_server_info | Handle_server_msg | Handle_server_ping | Ignore

definition cmds :: "(string \<times> handler) list" where
  "cmds = [(''INFO'', Handle_server_info), (''MSG'', Handle_server_msg),
           (''PING'', Handle_server_ping), (''+OK'', Ignore), (''-ERR'', Ignore)]"

fun handle :: "handler \<Rightarrow> env \<Rightarrow> state \<Rightarrow> string \<Rightarrow> nat \<Rightarrow> nat \<Rightarrow> int \<times> state" where
  "handle Handle_server_info = handle_server_info"
| "handle Handle_server_msg = handle_server_msg"
| "handle Handle_server_ping = handle_server_ping"
| "handle Ignore = ignore"

fun cmds_find :: "(string \<times> handler) list \<Rightarrow> string \<Rightarrow> nat \<Rightarrow> handler option" where
  "cmds_find [] cmd len = None"
| "cmds_find ((opn, h) # rest) cmd len =
     (if len \<noteq> length opn then cmds_find rest cmd len
      else if strncmp opn cmd len = 0 then Some h
      else cmds_find rest cmd len)"

text \<open>The first two steps of the dispatcher: the split into operation and payload.\<close>

definition split_cmd :: "string \<Rightarrow> string \<times> nat option" where
  "split_cmd cmd =
     (let (m1, payload) = strsep cmd (Some 0) [CHR '' '', CHR 0x09] in
      if payload = None then strsep m1 (Some 0) [CHR 0x0D] else (m1, payload))"

definition handle_server_cmd :: "env \<Rightarrow> state \<Rightarrow> string \<Rightarrow> nat \<Rightarrow> int \<times> state" where
  "handle_server_cmd e st cmd len =
     (case split_cmd cmd of
        (m, None) \<Rightarrow> (- EINVAL, st)
      | (m, Some payload) \<Rightarrow>
          (let payload_len = size_sub len payload; len = payload in
           case cmds_find cmds m len of
             Some h \<Rightarrow> handle h e st m payload payload_len
           | None \<Rightarrow> (- ENOENT, st)))"

section \<open>Outbound command builders\<close>

text \<open>
  The segment \<open>{ .base = s, .len = n ? n : strlen(s) }\<close> of an I/O vector.  The
  argument is the memory from the pointer on.
\<close>

definition seg :: "string \<Rightarrow> nat \<Rightarrow> string" where
  "seg s n = bytes_at s 0 (if n \<noteq> 0 then n else strlen s)"

text \<open>
  \<open>nats_subscribe\<close>, lines 346-395.  Past the two validations \<open>subject\<close> and \<open>sid\<close> are
  not \<open>NULL\<close>.
\<close>

definition nats_subscribe ::
  "env \<Rightarrow> state \<Rightarrow> string option \<Rightarrow> nat \<Rightarrow> string option \<Rightarrow> nat \<Rightarrow> string option \<Rightarrow> nat
   \<Rightarrow> int \<times> state" where
  "nats_subscribe e st subject subject_len queue_group queue_group_len sid sid_len =
     (if \<not> is_subject_valid subject subject_len then (- EINVAL, st)
      else if \<not> is_sid_valid sid sid_len then (- EINVAL, st)
      else case queue_group of
        Some q \<Rightarrow>
          transmitv e st [''SUB '', seg (the subject) subject_len, '' '',
                          seg q queue_group_len, '' '', seg (the sid) sid_len, CRLF]
      | None \<Rightarrow>
          transmitv e st [''SUB '', seg (the subject) subject_len, '' '',
                          seg (the sid) sid_len, CRLF])"

text \<open>
  \<open>nats_unsubscribe\<close>, lines 397-434.  The buffer for the count has
  \<open>3 * sizeof(size_t)\<close> = 12 bytes; \<open>ret\<close> is the number of digits, never negative.
\<close>

definition nats_unsubscribe :: "env \<Rightarrow> state \<Rightarrow> string option \<Rightarrow> nat \<Rightarrow> nat \<Rightarrow> int \<times> state" where
  "nats_unsubscribe e st sid sid_len max_msgs =
     (if \<not> is_sid_valid sid sid_len then (- EINVAL, st)
      else if max_msgs \<noteq> 0 then
        (let max_msgs_str = dec max_msgs; ret = length max_msgs_str in
         if ret \<ge> 12 then (- ENOMEM, st)
         else transmitv e st [''UNSUB '', seg (the sid) sid_len, '' '', max_msgs_str, CRLF])
      else transmitv e st [''UNSUB '', seg (the sid) sid_len, CRLF])"

text \<open>
  \<open>nats_publish\<close>, lines 436-487.  Neither I/O vector has a segment for \<open>payload\<close>.
  Without a reply subject the fourth segment is built from \<open>reply_to\<close>, which is
  \<open>NULL\<close> there: \<open>strlen\<close> dereferences it when \<open>reply_to_len\<close> is 0, and otherwise
  \<open>net_nbuf_append\<close> copies \<open>reply_to_len\<close> bytes from it once the three segments before
  it are appended.
\<close>

definition nats_publish ::
  "env \<Rightarrow> state \<Rightarrow> string option \<Rightarrow> nat \<Rightarrow> string option \<Rightarrow> nat \<Rightarrow> string \<Rightarrow> nat
   \<Rightarrow> (int \<times> state) outcome" where
  "nats_publish e st subject subject_len reply_to reply_to_len payload payload_len =
     (if \<not> is_subject_valid subject subject_len then Returns (- EINVAL, st)
      else let payload_len_str = dec payload_len; ret = length payload_len_str in
        if ret \<ge> 12 then Returns (- ENOMEM, st)
        else case reply_to of
          Some r \<Rightarrow>
            Returns (transmitv e st [''PUB '', seg (the subject) subject_len, '' '',
                                     seg r reply_to_len, '' '', payload_len_str, CRLF])
        | None \<Rightarrow>
            (if reply_to_len = 0 then Fault
             else if \<not> net_nbuf_get_tx e then Returns (- ENOMEM, st)
             else if \<not> append_all e [''PUB '', seg (the subject) subject_len, '' '']
               then Returns (- ENOMEM, st)
             else Fault))"

section \<open>Receive path\<close>

text \<open>
  Modelled from the spec: \<open>net_nbuf_read\<close> of the network stack is not part of the sample.
  Section 4.2 has the bytes up to the delimiter appended to the accumulation buffer and the
  processing continue with the remaining bytes of the delivery: the function copies \<open>len\<close>
  bytes from a chain of fragments, starting at an offset in the first, and returns the
  fragment and offset behind the last byte read, which is the next fragment at offset 0
  once a fragment is exhausted and \<open>NULL\<close> (the empty chain) behind the last one.
\<close>

fun adjust_offset :: "string list \<Rightarrow> nat \<Rightarrow> string list \<times> nat" where
  "adjust_offset [] off = ([], 0)"
| "adjust_offset (f # fs) off =
     (if off < length f then (f # fs, off) else adjust_offset fs (off - length f))"

fun net_nbuf_read :: "string list \<Rightarrow> nat \<Rightarrow> nat \<Rightarrow> string list \<times> nat \<times> string" where
  "net_nbuf_read frags off 0 = (let (b, p) = adjust_offset frags off in (b, p, []))"
| "net_nbuf_read frags off (Suc n) =
     (case adjust_offset frags off of
        ([], p) \<Rightarrow> ([], 65535, [])
      | (f # fs, p) \<Rightarrow>
          (let (b, p', d) = net_nbuf_read (f # fs) (p + 1) n in (b, p', f ! p # d)))"

text \<open>\<open>memchr\<close> of the C library: the first occurrence among the first \<open>n\<close> bytes.\<close>

fun memchr_from :: "string \<Rightarrow> char \<Rightarrow> nat option" where
  "memchr_from [] c = None"
| "memchr_from (x # xs) c = (if x = c then Some 0 else map_option Suc (memchr_from xs c))"

definition memchr :: "string \<Rightarrow> char \<Rightarrow> nat \<Rightarrow> nat option" where
  "memchr s c n = memchr_from (take n s) c"

text \<open>The bytes \<open>net_nbuf_read\<close> stores at \<open>cmd_buf + cmd_len\<close>.\<close>

fun write_at :: "string \<Rightarrow> nat \<Rightarrow> string \<Rightarrow> string" where
  "write_at buf i [] = buf"
| "write_at buf i (c # cs) = write_at (buf[i := c]) (i + 1) cs"

text \<open>
  One iteration of the \<open>while\<close> loop of \<open>receive_cb\<close>, lines 513-540, on the fragment
  chain \<open>tmp\<close> with first fragment \<open>f\<close>, the offset \<open>pos\<close>, the array \<open>cmd_buf\<close> of 256 bytes
  and its fill \<open>cmd_len\<close>.  It either goes on with new values, leaves the loop, or writes
  the terminator at index 256, outside the array.  The parameter \<open>d\<close> is the function
  called at line 534, which \<open>receive_cb\<close> below fixes to the dispatcher.  An offset behind the end of the fragment
  makes \<open>tmp->len - pos\<close> wrap and \<open>memchr\<close> read outside the fragment.  The bytes that
  the dispatcher overwrites with NUL lie below the old \<open>cmd_len\<close> and are stored again
  before the next dispatch; they are not tracked.
\<close>

datatype rx_step =
  Continue "string list" nat string nat state
  | Break state
  | Out_of_bounds

definition receive_step ::
  "(state \<Rightarrow> string \<Rightarrow> nat \<Rightarrow> int \<times> state) \<Rightarrow> state \<Rightarrow> string \<Rightarrow> string list \<Rightarrow> nat \<Rightarrow> string
   \<Rightarrow> nat \<Rightarrow> rx_step" where
  "receive_step d st f fs pos cmd_buf cmd_len =
     (if pos > length f then Out_of_bounds
      else let len0 = length f - pos;
               end_of_line = memchr (drop pos f) (CHR 0x0D) len0;
               len = (case end_of_line of Some i \<Rightarrow> i | None \<Rightarrow> len0)
        in if cmd_len + len > 256 then Break st
           else let (tmp1, pos1, data) = net_nbuf_read (f # fs) pos len;
                    cmd_buf1 = write_at cmd_buf cmd_len data;
                    cmd_len1 = cmd_len + len
             in if end_of_line \<noteq> None then
                  (let (tmp2, pos2) =
                         (if tmp1 \<noteq> [] then
                            (let (b, p, d) = net_nbuf_read tmp1 pos1 1 in (b, p))
                          else (tmp1, pos1))
                   in if cmd_len1 \<ge> 256 then Out_of_bounds
                      else let cmd_buf2 = cmd_buf1[cmd_len1 := NUL];
                               (r, st') = d st cmd_buf2 cmd_len1
                        in if r < 0 then Break st'
                           else Continue tmp2 pos2 cmd_buf2 0 st')
                else Continue tmp1 pos1 cmd_buf1 cmd_len1 st)"

text \<open>
  The loop ends: each iteration that goes on leaves fewer bytes and fragments behind the
  position \<open>(tmp, pos)\<close>.
\<close>

definition chain_size :: "string list \<Rightarrow> nat" where
  "chain_size frags = sum_list (map (\<lambda>f. length f + 1) frags)"

lemma chain_size_simps [simp]:
  "chain_size [] = 0" "chain_size (f # fs) = length f + 1 + chain_size fs"
  by (simp_all add: chain_size_def)

lemma adjust_offset_size:
  "adjust_offset frags off = (b, p) \<Longrightarrow> chain_size b - p \<le> chain_size frags - off"
proof (induction frags arbitrary: off)
  case Nil
  then show ?case by simp
next
  case (Cons f fs)
  show ?case
  proof (cases "off < length f")
    case True
    with Cons.prems show ?thesis by auto
  next
    case False
    with Cons.prems have "adjust_offset fs (off - length f) = (b, p)" by simp
    from Cons.IH [OF this] False show ?thesis by simp
  qed
qed

lemma adjust_offset_in: "off < length f \<Longrightarrow> adjust_offset (f # fs) off = (f # fs, off)"
  by simp

lemma adjust_offset_pos:
  "adjust_offset frags off = (b, p) \<Longrightarrow> b \<noteq> [] \<Longrightarrow> p < length (hd b)"
  by (induction frags arbitrary: off) (auto split: if_splits)

lemma net_nbuf_read_in:
  "off + n \<le> length f \<Longrightarrow>
   net_nbuf_read (f # fs) off n =
     (fst (adjust_offset (f # fs) (off + n)), snd (adjust_offset (f # fs) (off + n)),
      take n (drop off f))"
proof (induction n arbitrary: off)
  case 0
  then show ?case by (simp add: case_prod_beta)
next
  case (Suc n)
  then have lt: "off < length f" and le: "Suc off + n \<le> length f" by simp_all
  have d: "take (Suc n) (drop off f) = f ! off # take n (drop (Suc off) f)"
    using lt by (metis Cons_nth_drop_Suc take_Suc_Cons)
  show ?case
    using lt Suc.IH [OF le] by (simp add: d)
qed


lemma memchr_from_less: "memchr_from s c = Some i \<Longrightarrow> i < length s"
  by (induction s arbitrary: i) (auto split: if_splits)

lemma memchr_less: "memchr s c n = Some i \<Longrightarrow> i < n \<and> i < length s"
  by (auto simp: memchr_def dest: memchr_from_less)

lemma read_whole_fragment:
  assumes "pos \<le> length f"
  shows "net_nbuf_read (f # fs) pos (length f - pos) =
         (fst (adjust_offset fs 0), snd (adjust_offset fs 0), drop pos f)"
  using assms net_nbuf_read_in [of pos "length f - pos" f fs] by simp

lemma read_to_delimiter:
  assumes "pos + i < length f"
  shows "net_nbuf_read (f # fs) pos i = (f # fs, pos + i, take i (drop pos f))"
  using assms net_nbuf_read_in [of pos i f fs] by simp

lemma skip_delimiter:
  assumes "q < length f"
  shows "net_nbuf_read (f # fs) q 1 =
         (fst (adjust_offset (f # fs) (Suc q)), snd (adjust_offset (f # fs) (Suc q)), [f ! q])"
  using assms net_nbuf_read_in [of q 1 f fs]
  by (simp add: take_Suc_conv_app_nth hd_drop_conv_nth take_Suc)

lemma receive_step_decreases:
  assumes "receive_step d st f fs pos cmd_buf cmd_len = Continue tmp' pos' cmd_buf' cmd_len' st'"
  shows "chain_size tmp' - pos' < chain_size (f # fs) - pos"
proof -
  from assms have le: "pos \<le> length f"
    by (auto simp: receive_step_def split: if_splits)
  show ?thesis
  proof (cases "memchr (drop pos f) (CHR 0x0D) (length f - pos)")
    case None
    with assms le have "(tmp', pos') = adjust_offset fs 0"
      by (auto simp: receive_step_def read_whole_fragment Let_def split: if_splits)
    then have "chain_size tmp' - pos' \<le> chain_size fs"
      using adjust_offset_size [of fs 0 tmp' pos'] by simp
    with le show ?thesis by simp
  next
    case (Some i)
    then have i: "pos + i < length f"
      using memchr_less [OF Some] by simp
    with assms Some le have "(tmp', pos') = adjust_offset (f # fs) (Suc (pos + i))"
      by (auto simp: receive_step_def read_to_delimiter skip_delimiter Let_def
          split: if_splits prod.splits)
    then have "chain_size tmp' - pos' \<le> chain_size (f # fs) - Suc (pos + i)"
      using adjust_offset_size [of "f # fs" "Suc (pos + i)" tmp' pos'] by simp
    with i show ?thesis by simp
  qed
qed

text \<open>The \<open>while (tmp)\<close> loop, and \<open>receive_cb\<close>, lines 489-543.\<close>

function receive_loop ::
  "(state \<Rightarrow> string \<Rightarrow> nat \<Rightarrow> int \<times> state) \<Rightarrow> state \<Rightarrow> string list \<Rightarrow> nat \<Rightarrow> string \<Rightarrow> nat
   \<Rightarrow> state outcome" where
  "receive_loop d st tmp pos cmd_buf cmd_len =
     (case tmp of
        [] \<Rightarrow> Returns st
      | f # fs \<Rightarrow>
          (case receive_step d st f fs pos cmd_buf cmd_len of
             Continue tmp' pos' cmd_buf' cmd_len' st' \<Rightarrow>
               receive_loop d st' tmp' pos' cmd_buf' cmd_len'
           | Break st' \<Rightarrow> Returns st'
           | Out_of_bounds \<Rightarrow> Fault))"
  by pat_completeness auto
termination
  by (relation "measure (\<lambda>(d, st, tmp, pos, cmd_buf, cmd_len). chain_size tmp - pos)")
     (auto dest: receive_step_decreases)

text \<open>
  A delivery is \<open>NULL\<close> or a packet: the chain \<open>buf->frags\<close> of its data fragments and
  the offset of the application data in the first of them.  \<open>cmd_buf\<close> is the content
  the local array starts with, which the C code leaves indeterminate.  The function returns
  nothing: what a caller can observe is the effects, or that the call has no defined result.
\<close>

definition receive_cb ::
  "env \<Rightarrow> state \<Rightarrow> (string list \<times> nat) option \<Rightarrow> int \<Rightarrow> string \<Rightarrow> state outcome" where
  "receive_cb e st buf status cmd_buf =
     (case buf of
        None \<Rightarrow> Returns st
      | Some (frags, appdata) \<Rightarrow>
          (if status \<noteq> 0 then Returns st
           else case frags of
             [] \<Rightarrow> Fault
           | f # fs \<Rightarrow> receive_loop (handle_server_cmd e) st (f # fs) appdata cmd_buf 0))"

section \<open>The subject grammar in the words of the specification\<close>

text \<open>
  Every character is alphanumeric or one of \<open>.\<close>, \<open>*\<close>, \<open>>\<close>; no two neighbours are
  the same delimiter or wildcard character; \<open>>\<close> occurs only as the last character.
  \<open>subject_grammar_after\<close> is the same for the rest of a subject behind the character
  \<open>l\<close>, with the neighbour rule as the loop applies it.
\<close>

definition subject_grammar :: "string \<Rightarrow> bool" where
  "subject_grammar s =
     (list_all (\<lambda>c. isalnum c \<or> c = CHR ''.'' \<or> c = CHR ''*'' \<or> c = CHR ''>'') s \<and>
      list_all (\<lambda>(a, b). \<not> (a = b \<and> (a = CHR ''.'' \<or> a = CHR ''*'' \<or> a = CHR ''>'')))
        (zip s (tl s)) \<and>
      CHR ''>'' \<notin> set (butlast s))"

definition subject_grammar_after :: "char \<Rightarrow> string \<Rightarrow> bool" where
  "subject_grammar_after l s =
     (list_all (\<lambda>c. isalnum c \<or> c = CHR ''.'' \<or> c = CHR ''*'' \<or> c = CHR ''>'') s \<and>
      list_all (\<lambda>(a, b). \<not> (a = b \<and> (a = CHR ''.'' \<or> a = CHR ''*''))) (zip (l # s) s) \<and>
      CHR ''>'' \<notin> set (butlast s))"

section \<open>Sizes of fragment chains, and concrete collaborators\<close>

text \<open>The number of data bytes in a chain of fragments.\<close>

definition chain_bytes :: "string list \<Rightarrow> nat" where
  "chain_bytes frags = sum_list (map length frags)"

text \<open>
  A connection whose transport accepts every packet, whose server announcement asks for
  authentication without TLS, whose escaper has nothing to escape and whose application
  supplies the user \<open>a\<close> with the password \<open>b\<close>; and the state before any effect.
\<close>

definition info0 :: nats_info where
  "info0 = \<lparr>server_id = None, version = None, go = None, host = None, max_payload = 0,
            port = 0, ssl_required = False, auth_required = True\<rparr>"

definition env0 :: env where
  "env0 = \<lparr>net_nbuf_get_tx = True, net_nbuf_append = (\<lambda>seg. True),
           net_context_send = (\<lambda>iov. 0), json_obj_parse = (\<lambda>payload. (0, info0)),
           json_escape = (\<lambda>s n. (0, s)),
           on_auth_required = Some (\<lambda>user_len pass_len. (0, ''a'', ''b'')),
           on_message = (\<lambda>msg. 0)\<rparr>"

definition state0 :: state where
  "state0 = \<lparr>sent = [], delivered = []\<rparr>"

text \<open>
  The I/O vector of the \<open>CONNECT\<close> command for a user and a password, and the bytes
  \<open>CONNECT {"user":"a","pass":"b"}\r\n\<close>.
\<close>

definition connect_iov :: "string \<Rightarrow> string \<Rightarrow> string list" where
  "connect_iov user pass =
     [''CONNECT {'' @ [DQ] @ ''user'' @ [DQ] @ '':'' @ [DQ], user,
      [DQ] @ '','' @ [DQ] @ ''pass'' @ [DQ] @ '':'' @ [DQ], pass,
      [DQ] @ ''}'' @ CRLF]"

definition connect_a_b :: string where
  "connect_a_b = ''CONNECT {'' @ [DQ] @ ''user'' @ [DQ] @ '':'' @ [DQ] @ ''a'' @ [DQ] @ '','' @
     [DQ] @ ''pass'' @ [DQ] @ '':'' @ [DQ] @ ''b'' @ [DQ] @ ''}'' @ [CHR 0x0D, CHR 0x0A]"

section \<open>Properties of the subject validator\<close>

declare is_subject_valid_loop.simps [simp del]

lemma rd_Cons_Suc: "rd (x # xs) (Suc p) = rd xs p"
  by (simp add: rd_def)

lemma rd_Cons_0: "rd (x # xs) 0 = x"
  by (simp add: rd_def)

lemma rd_Nil: "rd [] p = NUL"
  by (simp add: rd_def)

lemma isv_loop_Cons:
  "is_subject_valid_loop (x # xs) (Suc n) (Suc p) l = is_subject_valid_loop xs n p l"
proof (induction "n - p" arbitrary: p l)
  case 0
  then have "\<not> p < n" by simp
  then show ?case
    by (simp add: is_subject_valid_loop.simps [of "x # xs" "Suc n" "Suc p" l]
        is_subject_valid_loop.simps [of xs n p l])
next
  case (Suc k)
  then have lt: "p < n" and k: "k = n - Suc p" by simp_all
  have IH: "\<And>l'. is_subject_valid_loop (x # xs) (Suc n) (Suc (Suc p)) l' =
      is_subject_valid_loop xs n (Suc p) l'"
    using Suc.hyps(1) [OF k] .
  show ?case
    using lt
    by (simp add: is_subject_valid_loop.simps [of "x # xs" "Suc n" "Suc p" l]
        is_subject_valid_loop.simps [of xs n p l] rd_Cons_Suc Let_def IH)
qed

lemma not_alnum_special: "\<not> isalnum NUL" "\<not> isalnum (CHR ''.'')" "\<not> isalnum (CHR ''*'')" "\<not> isalnum (CHR ''>'')"
  by (simp_all add: isalnum_def NUL_def)

lemma isv_loop_Nil: "is_subject_valid_loop s 0 0 l"
  by (simp add: is_subject_valid_loop.simps)

lemma isv_loop_step:
  "is_subject_valid_loop (c # cs) (Suc (length cs)) 0 l =
    ((if c = CHR ''>'' then rd cs 0 = NUL
      else if c = CHR ''.'' \<or> c = CHR ''*'' then l \<noteq> c else isalnum c) \<and>
     is_subject_valid_loop cs (length cs) 0 c)"
  by (simp add: is_subject_valid_loop.simps [of "c # cs" "Suc (length cs)" 0 l]
      rd_Cons_0 rd_Cons_Suc Let_def isv_loop_Cons)

lemma isv_loop_grammar:
  "is_subject_valid_loop s (length s) 0 l = subject_grammar_after l s"
proof (induction s arbitrary: l)
  case Nil
  show ?case by (simp add: isv_loop_Nil subject_grammar_after_def)
next
  case (Cons c cs)
  have step: "is_subject_valid_loop (c # cs) (length (c # cs)) 0 l =
    ((if c = CHR ''>'' then rd cs 0 = NUL
      else if c = CHR ''.'' \<or> c = CHR ''*'' then l \<noteq> c else isalnum c) \<and>
     subject_grammar_after c cs)"
    by (simp only: length_Cons isv_loop_step Cons.IH)
  show ?case
  proof (cases cs)
    assume "cs = []"
    then show ?thesis
      unfolding step using not_alnum_special
      by (auto simp add: rd_Nil subject_grammar_after_def)
  next
    fix d ds assume "cs = d # ds"
    then show ?thesis
      unfolding step using not_alnum_special
      by (auto simp add: subject_grammar_after_def rd_Cons_0 NUL_def)
  qed
qed

lemma zip_tl_left: "(a, b) \<in> set (zip s (tl s)) \<Longrightarrow> a \<in> set (butlast s)"
proof (induction s)
  case Nil
  then show ?case by simp
next
  case (Cons x xs)
  then show ?case by (cases xs) auto
qed

lemma pair_rules_agree:
  assumes "CHR ''>'' \<notin> set (butlast s)"
  shows "list_all (\<lambda>(a, b). \<not> (a = b \<and> (a = CHR ''.'' \<or> a = CHR ''*''))) (zip s (tl s)) =
         list_all (\<lambda>(a, b). \<not> (a = b \<and> (a = CHR ''.'' \<or> a = CHR ''*'' \<or> a = CHR ''>'')))
           (zip s (tl s))"
proof -
  have ne: "a \<noteq> CHR ''>''" if "(a, b) \<in> set (zip s (tl s))" for a b
  proof
    assume "a = CHR ''>''"
    with zip_tl_left [OF that] assms show False by simp
  qed
  show ?thesis
    unfolding list_all_iff using ne by fastforce
qed

lemma subject_grammar_after_NUL: "subject_grammar_after NUL s = subject_grammar s"
proof (cases s)
  case Nil
  then show ?thesis by (simp add: subject_grammar_after_def subject_grammar_def)
next
  case (Cons c cs)
  have z: "zip (NUL # s) s = (NUL, c) # zip s (tl s)"
    using Cons by simp
  have n: "NUL \<noteq> CHR ''.''" "NUL \<noteq> CHR ''*''"
    by (simp_all add: NUL_def)
  show ?thesis
  proof (cases "CHR ''>'' \<in> set (butlast s)")
    case True
    then show ?thesis by (simp add: subject_grammar_after_def subject_grammar_def)
  next
    case False
    show ?thesis
      unfolding subject_grammar_after_def subject_grammar_def z
      using n pair_rules_agree [OF False] by simp
  qed
qed

lemma is_subject_valid_examples:
  "is_subject_valid (Some ''foo.bar'') 7"
  "\<not> is_subject_valid (Some ''foo..bar'') 8"
  "is_subject_valid (Some ''foo.>'') 5"
  "\<not> is_subject_valid (Some ''foo.>.bar'') 9"
  "is_subject_valid (Some ''*.foo'') 5"
  "\<not> is_subject_valid (Some ''**'') 2"
  by code_simp+

text \<open>
  C7, as amended.  \<open>is_subject_valid\<close>, called with the length of the subject, rejects
  \<open>NULL\<close> and accepts exactly the subjects in which every character is alphanumeric or
  one of \<open>.\<close>, \<open>*\<close>, \<open>>\<close>, no two neighbours are the same delimiter or wildcard
  character and \<open>>\<close> occurs only as the last character.  It accepts \<open>foo.bar\<close>,
  \<open>foo.>\<close> and \<open>*.foo\<close>, rejects \<open>foo..bar\<close>, \<open>foo.>.bar\<close> and \<open>**\<close>, and accepts
  the empty subject.
\<close>

theorem is_subject_valid_iff_grammar:
  "\<not> is_subject_valid None n \<and>
   is_subject_valid (Some s) (length s) = subject_grammar s \<and>
   is_subject_valid (Some ''foo.bar'') 7 \<and>
   \<not> is_subject_valid (Some ''foo..bar'') 8 \<and>
   is_subject_valid (Some ''foo.>'') 5 \<and>
   \<not> is_subject_valid (Some ''foo.>.bar'') 9 \<and>
   is_subject_valid (Some ''*.foo'') 5 \<and>
   \<not> is_subject_valid (Some ''**'') 2 \<and>
   is_subject_valid (Some []) 0"
proof -
  have "is_subject_valid (Some s) (length s) = subject_grammar s"
    by (simp add: is_subject_valid_def isv_loop_grammar subject_grammar_after_NUL)
  moreover have "\<not> is_subject_valid None n"
    by (simp add: is_subject_valid_def)
  moreover have "is_subject_valid (Some []) 0"
    by (simp add: is_subject_valid_def isv_loop_Nil)
  ultimately show ?thesis
    using is_subject_valid_examples by simp
qed

theorem is_subject_valid_iff_grammar_witness:
  "subject_grammar ''a.*.>'' \<and> is_subject_valid (Some ''a.*.>'') 5"
proof -
  have g: "subject_grammar ''a.*.>''"
    by (simp add: subject_grammar_def isalnum_def)
  have l: "length ''a.*.>'' = 5"
    by simp
  have "is_subject_valid (Some ''a.*.>'') (length ''a.*.>'') = subject_grammar ''a.*.>''"
    using is_subject_valid_iff_grammar [of 0 "''a.*.>''"] by blast
  with g show ?thesis unfolding l by simp
qed

text \<open>
  C7 as stated fails for the empty subject: the loop does not run and the validator
  answers true.
\<close>

theorem is_subject_valid_empty_counterexample:
  "\<not> (is_subject_valid (Some []) 0 = False)"
  by (simp add: is_subject_valid_def isv_loop_Nil)

section \<open>Properties of the dispatcher\<close>


lemma strchr_from_found:
  "strchr_from xs c = Some i \<Longrightarrow> c \<noteq> NUL \<Longrightarrow> i < length xs \<and> xs ! i = c"
  by (induction xs arbitrary: i) (auto split: if_splits)

lemma strchr_found:
  assumes "strchr m p c = Some ptr" and "c \<noteq> NUL"
  shows "p \<le> ptr \<and> ptr < length m \<and> m ! ptr = c"
proof -
  from assms(1) obtain i where i: "strchr_from (drop p m) c = Some i" and ptr: "ptr = p + i"
    by (auto simp: strchr_def)
  from strchr_from_found [OF i assms(2)] have "i < length m - p" "drop p m ! i = c"
    by simp_all
  with ptr show ?thesis by simp
qed

declare skip_delims.simps [simp del]

lemma skip_delims_ge: "ptr \<le> skip_delims m ptr delims"
proof (induction m ptr delims rule: skip_delims.induct)
  case (1 m ptr delims)
  show ?case
  proof (cases "rd m ptr \<noteq> NUL \<and> char_in_set (rd m ptr) delims")
    case True
    with 1 have "ptr + 1 \<le> skip_delims m (ptr + 1) delims" by blast
    moreover have "skip_delims m ptr delims = skip_delims m (ptr + 1) delims"
      using True by (subst skip_delims.simps) simp
    ultimately show ?thesis by simp
  next
    case False
    have "skip_delims m ptr delims = ptr"
      using False by (subst skip_delims.simps) auto
    then show ?thesis by simp
  qed
qed

lemma strsep_loop_found:
  "strsep_loop m p ds delims = (m', Some q) \<Longrightarrow> \<exists>i<q. rd m' i = NUL"
proof (induction ds)
  case Nil
  then show ?case by simp
next
  case (Cons d ds)
  show ?case
  proof (cases "d = NUL")
    case True
    with Cons.prems show ?thesis by simp
  next
    case False
    show ?thesis
    proof (cases "strchr m p d")
      case None
      with False Cons show ?thesis by simp
    next
      case (Some ptr)
      from strchr_found [OF Some False] have lt: "ptr < length m" by simp
      from Some False Cons.prems
      have m': "m' = m[ptr := NUL]" and q: "q = skip_delims m' (ptr + 1) delims"
        by (auto simp add: Let_def)
      have "ptr < q" using skip_delims_ge [of "ptr + 1" m' delims] q by simp
      moreover have "rd m' ptr = NUL" using lt m' by (simp add: rd_def)
      ultimately show ?thesis by blast
    qed
  qed
qed

lemma split_cmd_found:
  assumes "split_cmd cmd = (m, Some q)"
  shows "\<exists>i<q. rd m i = NUL"
proof (cases "strsep cmd (Some 0) [CHR '' '', CHR 0x09]")
  case (Pair m1 p1)
  show ?thesis
  proof (cases p1)
    case None
    with Pair assms have "strsep_loop m1 0 [CHR 0x0D] [CHR 0x0D] = (m, Some q)"
      by (simp add: split_cmd_def strsep_def)
    then show ?thesis by (rule strsep_loop_found)
  next
    case (Some a)
    with Pair assms have "strsep_loop cmd 0 [CHR '' '', CHR 0x09] [CHR '' '', CHR 0x09] = (m, Some q)"
      by (simp add: split_cmd_def strsep_def)
    then show ?thesis by (rule strsep_loop_found)
  qed
qed

lemma rd_tl: "rd (tl b) j = rd b (Suc j)"
  by (cases b) (simp_all add: rd_def)

lemma strncmp_equal:
  "strncmp a b (length a) = 0 \<Longrightarrow> NUL \<notin> set a \<Longrightarrow> j < length a \<Longrightarrow> rd b j = a ! j"
proof (induction a arbitrary: b j)
  case Nil
  then show ?case by simp
next
  case (Cons x xs)
  from Cons.prems have x: "rd b 0 = x" and rest: "strncmp xs (tl b) (length xs) = 0"
    by (auto simp: Let_def rd_def split: if_splits)
  show ?case
  proof (cases j)
    case 0
    with x show ?thesis by simp
  next
    case (Suc k)
    with Cons.prems Cons.IH [OF rest, of k] show ?thesis by (simp add: rd_tl)
  qed
qed

lemma cmds_find_none:
  assumes "i < q" and "rd m i = NUL" and "\<forall>(opn, h) \<in> set tbl. NUL \<notin> set opn"
  shows "cmds_find tbl m q = None"
  using assms(3)
proof (induction tbl)
  case Nil
  then show ?case by simp
next
  case (Cons a tbl)
  obtain opn h where a: "a = (opn, h)" by (cases a)
  with Cons.prems have nn: "NUL \<notin> set opn" by simp
  have "strncmp opn m q \<noteq> 0" if "q = length opn"
  proof
    assume "strncmp opn m q = 0"
    with that assms(1) nn have "rd m i = opn ! i"
      using strncmp_equal [of opn m i] by simp
    with assms(2) nn that assms(1) show False by (metis nth_mem)
  qed
  with a Cons show ?case by auto
qed

lemma cmds_no_NUL: "\<forall>(opn, h) \<in> set cmds. NUL \<notin> set opn"
  by (simp add: cmds_def NUL_def)

lemma handle_server_cmd_fails:
  "handle_server_cmd e st cmd len = (- EINVAL, st) \<or>
   handle_server_cmd e st cmd len = (- ENOENT, st)"
proof (cases "split_cmd cmd")
  case (Pair m p)
  show ?thesis
  proof (cases p)
    case None
    with Pair show ?thesis by (simp add: handle_server_cmd_def)
  next
    case (Some q)
    from split_cmd_found [OF Pair [unfolded Some]] obtain i where "i < q" "rd m i = NUL"
      by blast
    then have "cmds_find cmds m q = None"
      using cmds_no_NUL by (rule cmds_find_none)
    with Pair Some show ?thesis by (simp add: handle_server_cmd_def)
  qed
qed



lemma handle_server_cmd_negative:
  "fst (handle_server_cmd e s b n) < 0 \<and> snd (handle_server_cmd e s b n) = s"
  using handle_server_cmd_fails [of e s b n] by (auto simp: EINVAL_def ENOENT_def)

lemma split_cmd_no_match:
  "(case split_cmd cmd of (m, None) \<Rightarrow> True | (m, Some q) \<Rightarrow> cmds_find cmds m q = None)"
proof (cases "split_cmd cmd")
  case (Pair m p)
  show ?thesis
  proof (cases p)
    case None
    with Pair show ?thesis by simp
  next
    case (Some q)
    from split_cmd_found [OF Pair [unfolded Some]] obtain i where "i < q" "rd m i = NUL"
      by blast
    then have "cmds_find cmds m q = None"
      using cmds_no_NUL by (rule cmds_find_none)
    with Pair Some show ?thesis by simp
  qed
qed

text \<open>
  C1.  The dispatcher never reaches a handler.  \<open>strsep\<close> overwrites the delimiter behind
  the operation with NUL and returns a pointer behind it, and the dispatcher takes the
  distance to that pointer as the length of the operation: the length counts the
  delimiter, so the comparison with a table entry of this length meets the NUL before its
  end.  Every call returns \<open>-EINVAL\<close> (no blank, tab or carriage return in the line) or
  \<open>-ENOENT\<close> and has no effect.  The line \<open>PING\<close>, as the receive path passes it, gives
  \<open>-EINVAL\<close>; \<open>INFO {}\<close>, \<open>PING\<close> with its carriage return and \<open>+OK \<close> give
  \<open>-ENOENT\<close>.
\<close>

theorem handle_server_cmd_never_dispatches:
  "(case split_cmd cmd of (m, None) \<Rightarrow> True | (m, Some q) \<Rightarrow> cmds_find cmds m q = None) \<and>
   (handle_server_cmd e st cmd len = (- EINVAL, st) \<or>
    handle_server_cmd e st cmd len = (- ENOENT, st)) \<and>
   handle_server_cmd e st (''PING'' @ [NUL]) 4 = (- EINVAL, st) \<and>
   handle_server_cmd e st (''INFO {}'' @ [NUL]) 7 = (- ENOENT, st) \<and>
   handle_server_cmd e st (''PING'' @ [CHR 0x0D, NUL]) 5 = (- ENOENT, st) \<and>
   handle_server_cmd e st (''+OK '' @ [NUL]) 4 = (- ENOENT, st)"
proof -
  have "handle_server_cmd e st (''PING'' @ [NUL]) 4 = (- EINVAL, st)"
    by code_simp
  moreover have "handle_server_cmd e st (''INFO {}'' @ [NUL]) 7 = (- ENOENT, st)"
    by code_simp
  moreover have "handle_server_cmd e st (''PING'' @ [CHR 0x0D, NUL]) 5 = (- ENOENT, st)"
    by code_simp
  moreover have "handle_server_cmd e st (''+OK '' @ [NUL]) 4 = (- ENOENT, st)"
    by code_simp
  ultimately show ?thesis
    using split_cmd_no_match [of cmd] handle_server_cmd_fails [of e st cmd len] by blast
qed

section \<open>Properties of the receive path\<close>

lemma receive_step_overflow:
  assumes "pos \<le> length f"
    and "cmd_len + (case memchr (drop pos f) (CHR 0x0D) (length f - pos) of
           Some i \<Rightarrow> i | None \<Rightarrow> length f - pos) > 256"
  shows "receive_step d st f fs pos cmd_buf cmd_len = Break st"
  using assms by (simp add: receive_step_def Let_def)

lemma receive_step_partial:
  assumes "pos \<le> length f"
    and "memchr (drop pos f) (CHR 0x0D) (length f - pos) = None"
    and "cmd_len + (length f - pos) \<le> 256"
  shows "receive_step d st f fs pos cmd_buf cmd_len =
         Continue (fst (adjust_offset fs 0)) (snd (adjust_offset fs 0))
           (write_at cmd_buf cmd_len (drop pos f)) (cmd_len + (length f - pos)) st"
  using assms by (simp add: receive_step_def Let_def read_whole_fragment)

lemma receive_step_line:
  assumes "pos \<le> length f"
    and "memchr (drop pos f) (CHR 0x0D) (length f - pos) = Some i"
    and "cmd_len + i < 256"
  shows "receive_step d st f fs pos cmd_buf cmd_len =
         (let cmd_buf2 = (write_at cmd_buf cmd_len (take i (drop pos f)))[cmd_len + i := NUL];
              (r, st') = d st cmd_buf2 (cmd_len + i)
          in if r < 0 then Break st'
             else Continue (fst (adjust_offset (f # fs) (Suc (pos + i))))
                    (snd (adjust_offset (f # fs) (Suc (pos + i)))) cmd_buf2 0 st')"
proof -
  from memchr_less [OF assms(2)] have i: "pos + i < length f" by simp
  show ?thesis
    using assms i
    by (simp add: receive_step_def Let_def read_to_delimiter skip_delimiter case_prod_beta)
qed

lemma receive_step_terminator:
  assumes "pos \<le> length f"
    and "memchr (drop pos f) (CHR 0x0D) (length f - pos) = Some i"
    and "cmd_len + i = 256"
  shows "receive_step d st f fs pos cmd_buf cmd_len = Out_of_bounds"
proof -
  from memchr_less [OF assms(2)] have i: "pos + i < length f" by simp
  show ?thesis
    using assms i
    by (simp add: receive_step_def Let_def read_to_delimiter skip_delimiter case_prod_beta)
qed

declare receive_loop.simps [simp del]

lemma receive_loop_Nil: "receive_loop d st [] pos cmd_buf cmd_len = Returns st"
  by (simp add: receive_loop.simps)

lemma receive_loop_Cons:
  "receive_loop d st (f # fs) pos cmd_buf cmd_len =
     (case receive_step d st f fs pos cmd_buf cmd_len of
        Continue tmp' pos' cmd_buf' cmd_len' st' \<Rightarrow> receive_loop d st' tmp' pos' cmd_buf' cmd_len'
      | Break st' \<Rightarrow> Returns st'
      | Out_of_bounds \<Rightarrow> Fault)"
  by (simp add: receive_loop.simps [of d st "f # fs"])


lemma receive_step_state:
  assumes fails: "\<And>s b n. fst (d s b n) < 0 \<and> snd (d s b n) = s"
  shows "receive_step d st f fs pos cmd_buf cmd_len = Continue tmp' pos' cmd_buf' cmd_len' st'
           \<Longrightarrow> st' = st"
    and "receive_step d st f fs pos cmd_buf cmd_len = Break st' \<Longrightarrow> st' = st"
proof -
  have d: "\<And>s b n r s'. d s b n = (r, s') \<Longrightarrow> r < 0 \<and> s' = s"
    using fails by (metis fst_conv snd_conv)
  show "receive_step d st f fs pos cmd_buf cmd_len = Continue tmp' pos' cmd_buf' cmd_len' st'
           \<Longrightarrow> st' = st"
    by (auto simp: receive_step_def Let_def split: if_splits prod.splits dest: d)
  show "receive_step d st f fs pos cmd_buf cmd_len = Break st' \<Longrightarrow> st' = st"
    by (auto simp: receive_step_def Let_def split: if_splits prod.splits dest: d)
qed

lemma receive_loop_failing_dispatch:
  assumes fails: "\<And>s b n. fst (d s b n) < 0 \<and> snd (d s b n) = s"
  shows "receive_loop d st tmp pos cmd_buf cmd_len = Returns st \<or>
         receive_loop d st tmp pos cmd_buf cmd_len = Fault"
  using fails
proof (induction d st tmp pos cmd_buf cmd_len rule: receive_loop.induct)
  case (1 d st tmp pos cmd_buf cmd_len)
  note fails = "1.prems"
  show ?case
  proof (cases tmp)
    case Nil
    then show ?thesis by (simp add: receive_loop_Nil)
  next
    case (Cons f fs)
    show ?thesis
    proof (cases "receive_step d st f fs pos cmd_buf cmd_len")
      case (Continue tmp' pos' cmd_buf' cmd_len' st')
      have "st' = st" using receive_step_state(1) [OF fails Continue] .
      with "1.IH" [OF Cons Continue fails] Cons Continue show ?thesis
        by (simp add: receive_loop_Cons)
    next
      case (Break st')
      have "st' = st" using receive_step_state(2) [OF fails Break] .
      with Cons Break show ?thesis by (simp add: receive_loop_Cons)
    next
      case Out_of_bounds
      with Cons show ?thesis by (simp add: receive_loop_Cons)
    qed
  qed
qed


lemma chain_bytes_simps [simp]:
  "chain_bytes [] = 0" "chain_bytes (f # fs) = length f + chain_bytes fs"
  by (simp_all add: chain_bytes_def)

lemma adjust_offset_bytes:
  "adjust_offset frags off = (b, p) \<Longrightarrow> chain_bytes b - p \<le> chain_bytes frags - off"
proof (induction frags arbitrary: off)
  case Nil
  then show ?case by simp
next
  case (Cons f fs)
  show ?case
  proof (cases "off < length f")
    case True
    with Cons.prems show ?thesis by auto
  next
    case False
    with Cons.prems have "adjust_offset fs (off - length f) = (b, p)" by simp
    from Cons.IH [OF this] False show ?thesis by simp
  qed
qed

lemma receive_loop_short:
  assumes fails: "\<And>s b n. fst (d s b n) < 0 \<and> snd (d s b n) = s"
    and "tmp \<noteq> [] \<longrightarrow> pos \<le> length (hd tmp)"
    and "cmd_len + (chain_bytes tmp - pos) \<le> 256"
  shows "receive_loop d st tmp pos cmd_buf cmd_len = Returns st"
proof -
  have "receive_loop d st tmp pos cmd_buf cmd_len \<noteq> Fault"
    using assms
  proof (induction d st tmp pos cmd_buf cmd_len rule: receive_loop.induct)
    case (1 d st tmp pos cmd_buf cmd_len)
    note fails = "1.prems"(1)
    show ?case
    proof (cases tmp)
      case Nil
      then show ?thesis by (simp add: receive_loop_Nil)
    next
      case (Cons f fs)
      with "1.prems" have le: "pos \<le> length f"
        and bound: "cmd_len + (length f + chain_bytes fs - pos) \<le> 256"
        by simp_all
      show ?thesis
      proof (cases "memchr (drop pos f) (CHR 0x0D) (length f - pos)")
        case None
        obtain b p where adj: "adjust_offset fs 0 = (b, p)" by (cases "adjust_offset fs 0")
        have step: "receive_step d st f fs pos cmd_buf cmd_len =
            Continue b p (write_at cmd_buf cmd_len (drop pos f)) (cmd_len + (length f - pos)) st"
          using receive_step_partial [OF le None, of cmd_len d st fs cmd_buf] bound le adj by simp
        have p: "b \<noteq> [] \<longrightarrow> p \<le> length (hd b)"
          using adjust_offset_pos [OF adj] by auto
        have "chain_bytes b - p \<le> chain_bytes fs"
          using adjust_offset_bytes [OF adj] by simp
        with bound le have "cmd_len + (length f - pos) + (chain_bytes b - p) \<le> 256" by simp
        from "1.IH" [OF Cons step fails p this] Cons step show ?thesis
          by (simp add: receive_loop_Cons)
      next
        case (Some i)
        from memchr_less [OF Some] bound le have i: "cmd_len + i < 256" by simp
        obtain r s' where d: "d st ((write_at cmd_buf cmd_len (take i (drop pos f)))[cmd_len + i := NUL])
            (cmd_len + i) = (r, s')"
          by (cases "d st ((write_at cmd_buf cmd_len (take i (drop pos f)))[cmd_len + i := NUL]) (cmd_len + i)")
        with fails [of st "(write_at cmd_buf cmd_len (take i (drop pos f)))[cmd_len + i := NUL]" "cmd_len + i"]
        have "r < 0" by simp
        with receive_step_line [OF le Some i, of d st fs cmd_buf] d Cons show ?thesis
          by (simp add: receive_loop_Cons)
      qed
    qed
  qed
  moreover have "receive_loop d st tmp pos cmd_buf cmd_len = Returns st \<or>
      receive_loop d st tmp pos cmd_buf cmd_len = Fault"
    by (rule receive_loop_failing_dispatch) (rule fails)
  ultimately show ?thesis by blast
qed


lemma receive_cb_no_effect:
  "receive_cb e st buf status cmd_buf = Returns st \<or> receive_cb e st buf status cmd_buf = Fault"
proof (cases buf)
  case None
  then show ?thesis by (simp add: receive_cb_def)
next
  case (Some a)
  obtain frags appdata where a: "a = (frags, appdata)" by (cases a)
  have "receive_loop (handle_server_cmd e) st frags appdata cmd_buf 0 = Returns st \<or>
        receive_loop (handle_server_cmd e) st frags appdata cmd_buf 0 = Fault"
    by (rule receive_loop_failing_dispatch) (rule handle_server_cmd_negative)
  with Some a show ?thesis
    by (cases frags) (auto simp: receive_cb_def)
qed

lemma receive_cb_short_fragment:
  assumes "length x \<le> 256"
  shows "receive_cb e st (Some ([x], 0)) 0 cmd_buf = Returns st"
proof -
  have "receive_loop (handle_server_cmd e) st [x] 0 cmd_buf 0 = Returns st"
    by (rule receive_loop_short) (use assms in \<open>simp_all add: handle_server_cmd_negative\<close>)
  then show ?thesis by (simp add: receive_cb_def)
qed

text \<open>
  C2.  No delivery makes the receive path dispatch anything: \<open>cmd_buf\<close> and \<open>cmd_len\<close>
  are local to one call of \<open>receive_cb\<close>, so nothing is kept from one delivery to the next,
  and the dispatcher fails on every line, so the loop stops at the first line end.  Every
  call leaves the effects as they were or has no defined result.  For every split of
  \<open>PING\r\n\<close> into two deliveries both calls return with no effect: no \<open>PONG\<close> is sent.
\<close>

theorem receive_cb_dispatches_no_ping:
  "(receive_cb e st buf status cmd_buf = Returns st \<or>
    receive_cb e st buf status cmd_buf = Fault) \<and>
   (k \<le> 6 \<longrightarrow>
    receive_cb e st (Some ([take k (''PING'' @ CRLF)], 0)) 0 cmd_buf = Returns st \<and>
    receive_cb e st (Some ([drop k (''PING'' @ CRLF)], 0)) 0 cmd_buf' = Returns st)"
  using receive_cb_no_effect [of e st buf status cmd_buf]
  by (simp add: receive_cb_short_fragment CRLF_def)

theorem receive_cb_dispatches_no_ping_witness:
  "(2::nat) \<le> 6 \<and>
   receive_cb env0 state0 (Some ([''PI''], 0)) 0 (replicate 256 NUL) = Returns state0 \<and>
   receive_cb env0 state0 (Some ([''NG'' @ CRLF], 0)) 0 (replicate 256 NUL) = Returns state0 \<and>
   sent state0 = []"
  using receive_cb_dispatches_no_ping
    [of env0 state0 None 0 "replicate 256 NUL" 2 "replicate 256 NUL"]
  by (simp add: CRLF_def state0_def)

lemma memchr_from_replicate:
  "x \<noteq> c \<Longrightarrow> memchr_from (replicate n x @ c # rest) c = Some n"
  by (induction n) simp_all

lemma memchr_replicate:
  "x \<noteq> c \<Longrightarrow> memchr (replicate n x @ c # rest) c (n + Suc (length rest)) = Some n"
  by (simp add: memchr_def memchr_from_replicate)

lemma long_line_delimiter:
  "memchr (replicate n (CHR ''A'') @ CRLF) (CHR 0x0D) (Suc (Suc n)) = Some n"
  using memchr_replicate [of "CHR ''A''" "CHR 0x0D" n "[CHR 0x0A]"] by (simp add: CRLF_def)

text \<open>
  C6, as amended.  When the bytes up to the next carriage return (or to the end of the
  fragment) do not fit the 256 bytes of \<open>cmd_buf\<close> together with what is accumulated,
  the loop is left at once: nothing more is copied and nothing of the line is dispatched,
  whatever the dispatcher would do, the rest of the delivery is dropped with it, and \<open>receive_cb\<close>
  returns without telling the caller.
\<close>

theorem receive_loop_overflow_is_silent:
  assumes "pos \<le> length f"
    and "256 < cmd_len + (case memchr (drop pos f) (CHR 0x0D) (length f - pos) of
           Some i \<Rightarrow> i | None \<Rightarrow> length f - pos)"
  shows "receive_step d st f fs pos cmd_buf cmd_len = Break st \<and>
         receive_loop d st (f # fs) pos cmd_buf cmd_len = Returns st"
  using receive_step_overflow [OF assms] by (simp add: receive_loop_Cons)

theorem receive_loop_overflow_is_silent_witness:
  "receive_loop (handle_server_cmd env0) state0
     [replicate 257 (CHR ''A'') @ CRLF, ''PING'' @ CRLF] 0 (replicate 256 NUL) 0 = Returns state0"
  using receive_loop_overflow_is_silent
    [of 0 "replicate 257 (CHR ''A'') @ CRLF" 0 "handle_server_cmd env0" state0
        "[''PING'' @ CRLF]" "replicate 256 NUL"]
    long_line_delimiter [of 257]
  by (simp add: CRLF_def)

text \<open>
  C6 as stated fails: for a line of 257 bytes \<open>receive_cb\<close> returns with the state
  unchanged, exactly as it does when there is no delivery; no condition is signalled.
\<close>

theorem receive_cb_overflow_counterexample:
  "receive_cb env0 state0 (Some ([replicate 257 (CHR ''A'') @ CRLF], 0)) 0 (replicate 256 NUL) =
     Returns state0 \<and>
   receive_cb env0 state0 None 0 (replicate 256 NUL) = Returns state0"
proof -
  have "receive_step (handle_server_cmd env0) state0 (replicate 257 (CHR ''A'') @ CRLF) [] 0
      (replicate 256 NUL) 0 = Break state0"
    using receive_step_overflow
      [of 0 "replicate 257 (CHR ''A'') @ CRLF" 0 "handle_server_cmd env0" state0 "[]"
          "replicate 256 NUL"]
      long_line_delimiter [of 257]
    by (simp add: CRLF_def)
  then show ?thesis
    by (simp add: receive_cb_def receive_loop_Cons)
qed

text \<open>
  C9.  The capacity guard \<open>cmd_len + len > sizeof(cmd_buf)\<close> admits an accumulated line
  of exactly 256 bytes; the terminator is then stored at \<open>cmd_buf[256]\<close>, one byte behind
  the array.
\<close>

theorem terminator_write_out_of_bounds:
  assumes "pos \<le> length f"
    and "memchr (drop pos f) (CHR 0x0D) (length f - pos) = Some i"
    and "cmd_len + i = 256"
  shows "receive_step d st f fs pos cmd_buf cmd_len = Out_of_bounds \<and>
         receive_loop d st (f # fs) pos cmd_buf cmd_len = Fault"
  using receive_step_terminator [OF assms] by (simp add: receive_loop_Cons)

theorem terminator_write_out_of_bounds_witness:
  "receive_cb env0 state0 (Some ([replicate 256 (CHR ''A'') @ CRLF], 0)) 0 (replicate 256 NUL) = Fault"
  using terminator_write_out_of_bounds
    [of 0 "replicate 256 (CHR ''A'') @ CRLF" 256 0 "handle_server_cmd env0" state0 "[]"
        "replicate 256 NUL"]
    long_line_delimiter [of 256]
  by (simp add: CRLF_def receive_cb_def)


section \<open>Properties of the handlers\<close>

lemma append_all_accepts: "(\<And>seg. net_nbuf_append e seg) \<Longrightarrow> append_all e iov"
  by (induction iov) simp_all

lemma transmitv_accepted:
  assumes "net_nbuf_get_tx e" and "\<And>seg. net_nbuf_append e seg"
  shows "transmitv e st iov = (net_context_send e iov, st\<lparr>sent := sent st @ [iov]\<rparr>)"
  using assms by (simp add: transmitv_def append_all_accepts)

text \<open>
  C5.  For a payload the JSON decoder accepts, \<open>handle_server_info\<close> returns
  \<open>-ENOTSUP\<close> when \<open>ssl_required\<close> is set, whatever \<open>auth_required\<close> is; returns 0
  and sends nothing when neither is set; returns \<open>-EPERM\<close> when authentication is
  required and no callback is configured; and, when the callback yields the user \<open>a\<close>
  and the password \<open>b\<close>, which the escaper leaves as they are, and the transport accepts
  the segments, sends one packet whose bytes are \<open>CONNECT {"user":"a","pass":"b"}\r\n\<close>.
\<close>

theorem handle_server_info_policy:
  assumes "json_obj_parse e (bytes_at m payload len) = (ret, info)" and "0 \<le> ret"
  shows "(ssl_required info \<longrightarrow> handle_server_info e st m payload len = (- ENOTSUP, st)) \<and>
    (\<not> ssl_required info \<and> \<not> auth_required info \<longrightarrow>
       handle_server_info e st m payload len = (0, st)) \<and>
    (\<not> ssl_required info \<and> auth_required info \<and> on_auth_required e = None \<longrightarrow>
       handle_server_info e st m payload len = (- EPERM, st)) \<and>
    (\<not> ssl_required info \<and> auth_required info \<and> on_auth_required e = Some cb \<and>
     cb 32 64 = (r, ''a'', ''b'') \<and> 0 \<le> r \<and>
     json_escape e ''a'' 32 = (r1, ''a'') \<and> 0 \<le> r1 \<and>
     json_escape e ''b'' 64 = (r2, ''b'') \<and> 0 \<le> r2 \<and>
     net_nbuf_get_tx e \<and> (\<forall>seg. net_nbuf_append e seg) \<longrightarrow>
       handle_server_info e st m payload len =
         (net_context_send e (connect_iov ''a'' ''b''),
          st\<lparr>sent := sent st @ [connect_iov ''a'' ''b'']\<rparr>) \<and>
       concat (connect_iov ''a'' ''b'') = connect_a_b)"
proof -
  have c: "concat (connect_iov ''a'' ''b'') = connect_a_b"
    by (simp add: connect_iov_def connect_a_b_def CRLF_def)
  show ?thesis
    using assms c
    by (auto simp add: handle_server_info_def transmitv_accepted connect_iov_def)
qed


theorem handle_server_info_policy_witness:
  "handle_server_info (env0\<lparr>json_obj_parse := \<lambda>p. (0, info0\<lparr>ssl_required := True\<rparr>)\<rparr>)
     state0 ''{}'' 0 2 = (- ENOTSUP, state0) \<and>
   handle_server_info (env0\<lparr>json_obj_parse := \<lambda>p. (0, info0\<lparr>auth_required := False\<rparr>)\<rparr>)
     state0 ''{}'' 0 2 = (0, state0) \<and>
   handle_server_info (env0\<lparr>on_auth_required := None\<rparr>) state0 ''{}'' 0 2 = (- EPERM, state0) \<and>
   handle_server_info env0 state0 ''{}'' 0 2 =
     (0, \<lparr>sent = [connect_iov ''a'' ''b''], delivered = []\<rparr>) \<and>
   concat (connect_iov ''a'' ''b'') = connect_a_b"
proof -
  have 1: "handle_server_info (env0\<lparr>json_obj_parse := \<lambda>p. (0, info0\<lparr>ssl_required := True\<rparr>)\<rparr>)
     state0 ''{}'' 0 2 = (- ENOTSUP, state0)"
    using handle_server_info_policy
      [where e = "env0\<lparr>json_obj_parse := \<lambda>p. (0, info0\<lparr>ssl_required := True\<rparr>)\<rparr>"
         and m = "''{}''" and payload = 0 and len = 2 and ret = 0
         and info = "info0\<lparr>ssl_required := True\<rparr>" and st = state0]
    by simp
  have 2: "handle_server_info (env0\<lparr>json_obj_parse := \<lambda>p. (0, info0\<lparr>auth_required := False\<rparr>)\<rparr>)
     state0 ''{}'' 0 2 = (0, state0)"
    using handle_server_info_policy
      [where e = "env0\<lparr>json_obj_parse := \<lambda>p. (0, info0\<lparr>auth_required := False\<rparr>)\<rparr>"
         and m = "''{}''" and payload = 0 and len = 2 and ret = 0
         and info = "info0\<lparr>auth_required := False\<rparr>" and st = state0]
    by (simp add: info0_def)
  have 3: "handle_server_info (env0\<lparr>on_auth_required := None\<rparr>) state0 ''{}'' 0 2 =
     (- EPERM, state0)"
    using handle_server_info_policy
      [where e = "env0\<lparr>on_auth_required := None\<rparr>"
         and m = "''{}''" and payload = 0 and len = 2 and ret = 0
         and info = info0 and st = state0]
    by (simp add: info0_def env0_def)
  have 4: "handle_server_info env0 state0 ''{}'' 0 2 =
     (0, \<lparr>sent = [connect_iov ''a'' ''b''], delivered = []\<rparr>) \<and>
     concat (connect_iov ''a'' ''b'') = connect_a_b"
    using handle_server_info_policy
      [where e = env0 and m = "''{}''" and payload = 0 and len = 2 and ret = 0
         and info = info0 and st = state0 and cb = "\<lambda>user_len pass_len. (0, ''a'', ''b'')"
         and r = 0 and ?r1.0 = 0 and ?r2.0 = 0]
    by (simp add: info0_def env0_def state0_def)
  from 1 2 3 4 show ?thesis by simp
qed

text \<open>
  C3.  \<open>handle_server_msg\<close> does not parse the size field.  With three fields the third
  \<open>strsep\<close> call takes the size field for the reply subject; the final call, for the
  delimiter \<open>\r\<close>, returns the pointer behind the carriage return, and \<open>strtoul\<close>
  reads there, which yields 0 when the payload does not start with digits.  For
  \<open>foo 1 5\r\nhello\<close> the callback gets the reply subject \<open>5\<close> and an empty payload;
  for \<open>foo 1 9\r\nhello\<close>, whose declared size exceeds the bytes present, the callback
  is invoked all the same; a header without carriage return, as the receive path cuts it,
  is rejected with \<open>-EINVAL\<close>.
\<close>

theorem handle_server_msg_misparses_size:
  "handle_server_msg e st (''foo 1 5'' @ CRLF @ ''hello'' @ [NUL]) 0 14 =
     (on_message e \<lparr>msg_subject = ''foo'', msg_sid = Some ''1'', msg_reply_to = Some ''5'',
                    msg_payload = [], msg_payload_len = 0\<rparr>,
      st\<lparr>delivered := delivered st @
         [\<lparr>msg_subject = ''foo'', msg_sid = Some ''1'', msg_reply_to = Some ''5'',
           msg_payload = [], msg_payload_len = 0\<rparr>]\<rparr>) \<and>
   handle_server_msg e st (''foo 1 9'' @ CRLF @ ''hello'' @ [NUL]) 0 14 =
     (on_message e \<lparr>msg_subject = ''foo'', msg_sid = Some ''1'', msg_reply_to = Some ''9'',
                    msg_payload = [], msg_payload_len = 0\<rparr>,
      st\<lparr>delivered := delivered st @
         [\<lparr>msg_subject = ''foo'', msg_sid = Some ''1'', msg_reply_to = Some ''9'',
           msg_payload = [], msg_payload_len = 0\<rparr>]\<rparr>) \<and>
   handle_server_msg e st (''foo 1 5'' @ [NUL]) 0 7 = (- EINVAL, st)"
proof -
  have "handle_server_msg e st (''foo 1 5'' @ CRLF @ ''hello'' @ [NUL]) 0 14 =
     (on_message e \<lparr>msg_subject = ''foo'', msg_sid = Some ''1'', msg_reply_to = Some ''5'',
                    msg_payload = [], msg_payload_len = 0\<rparr>,
      st\<lparr>delivered := delivered st @
         [\<lparr>msg_subject = ''foo'', msg_sid = Some ''1'', msg_reply_to = Some ''5'',
           msg_payload = [], msg_payload_len = 0\<rparr>]\<rparr>)"
    by code_simp
  moreover have "handle_server_msg e st (''foo 1 9'' @ CRLF @ ''hello'' @ [NUL]) 0 14 =
     (on_message e \<lparr>msg_subject = ''foo'', msg_sid = Some ''1'', msg_reply_to = Some ''9'',
                    msg_payload = [], msg_payload_len = 0\<rparr>,
      st\<lparr>delivered := delivered st @
         [\<lparr>msg_subject = ''foo'', msg_sid = Some ''1'', msg_reply_to = Some ''9'',
           msg_payload = [], msg_payload_len = 0\<rparr>]\<rparr>)"
    by code_simp
  moreover have "handle_server_msg e st (''foo 1 5'' @ [NUL]) 0 7 = (- EINVAL, st)"
    by code_simp
  ultimately show ?thesis by simp
qed

section \<open>Properties of the outbound builders\<close>

lemma is_subject_valid_zero: "is_subject_valid (Some s) 0"
  by (simp add: is_subject_valid_def is_subject_valid_loop.simps)

declare dec.simps [simp del]

lemma dec_length: "n < 10 ^ Suc k \<Longrightarrow> length (dec n) \<le> Suc k"
proof (induction k arbitrary: n)
  case 0
  then show ?case by (simp add: dec.simps [of n])
next
  case (Suc k)
  show ?case
  proof (cases "n < 10")
    case True
    then show ?thesis by (simp add: dec.simps [of n])
  next
    case False
    from Suc.prems have "n div 10 < 10 ^ Suc k" by (simp add: less_mult_imp_div_less)
    from Suc.IH [OF this] False show ?thesis by (simp add: dec.simps [of n])
  qed
qed

lemma dec_fits: "n < 2 ^ 32 \<Longrightarrow> \<not> 12 \<le> length (dec n)"
proof -
  assume "n < 2 ^ 32"
  then have "n < 10 ^ Suc 10" by simp
  from dec_length [OF this] show ?thesis by simp
qed

lemma seg_zero: "seg s 0 = takeWhile (\<lambda>c. c \<noteq> NUL) s"
  by (simp add: seg_def bytes_at_def strlen_def takeWhile_eq_take [symmetric])

lemma invalid_examples:
  "\<not> is_subject_valid (Some ''foo..bar'') 8" "\<not> is_sid_valid (Some ''ab-12'') 5"
  "is_sid_valid (Some ''abc123'') 6" "\<not> is_sid_valid (Some ''!'') 1"
  by code_simp+

text \<open>
  C8.  A call of \<open>nats_subscribe\<close> whose subject or sid fails its validation, a call of
  \<open>nats_unsubscribe\<close> whose sid fails it and a call of \<open>nats_publish\<close> whose subject
  fails it return \<open>-EINVAL\<close> and leave the effects as they were: nothing is handed to
  the transport.
\<close>

theorem builders_reject_invalid:
  "((\<not> is_subject_valid subject subject_len \<or> \<not> is_sid_valid sid sid_len) \<longrightarrow>
      nats_subscribe e st subject subject_len queue_group queue_group_len sid sid_len =
        (- EINVAL, st)) \<and>
   (\<not> is_sid_valid sid sid_len \<longrightarrow>
      nats_unsubscribe e st sid sid_len max_msgs = (- EINVAL, st)) \<and>
   (\<not> is_subject_valid subject subject_len \<longrightarrow>
      nats_publish e st subject subject_len reply_to reply_to_len payload payload_len =
        Returns (- EINVAL, st))"
  by (simp add: nats_subscribe_def nats_unsubscribe_def nats_publish_def)

theorem builders_reject_invalid_witness:
  "\<not> is_subject_valid (Some ''foo..bar'') 8 \<and> \<not> is_sid_valid (Some ''ab-12'') 5 \<and>
   nats_subscribe env0 state0 (Some ''foo..bar'') 8 None 0 (Some ''ab-12'') 5 = (- EINVAL, state0) \<and>
   nats_unsubscribe env0 state0 (Some ''ab-12'') 5 0 = (- EINVAL, state0) \<and>
   nats_publish env0 state0 (Some ''foo..bar'') 8 None 0 ''hi'' 2 = Returns (- EINVAL, state0)"
  using builders_reject_invalid
    [of "Some ''foo..bar''" 8 "Some ''ab-12''" 5 env0 state0 None 0 0 None 0 "''hi''" 2]
    invalid_examples(1,2)
  by simp


text \<open>
  C10, as amended.  With a subject length of zero the validation accepts every subject
  that is not \<open>NULL\<close>, and the subject segment is the whole string up to its NUL.  So
  \<open>nats_subscribe\<close>, given a sid that passes its validation, and \<open>nats_publish\<close>, given
  a reply subject, send the whole subject whatever its characters are, when the transport
  accepts the segments.
\<close>

theorem zero_length_subject_is_sent_unchecked:
  assumes "net_nbuf_get_tx e" and "\<forall>seg. net_nbuf_append e seg"
  shows "is_subject_valid (Some s) 0 \<and>
    seg s 0 = takeWhile (\<lambda>c. c \<noteq> NUL) s \<and>
    (is_sid_valid (Some sid) sid_len \<longrightarrow>
       nats_subscribe e st (Some s) 0 None 0 (Some sid) sid_len =
         (net_context_send e [''SUB '', seg s 0, '' '', seg sid sid_len, CRLF],
          st\<lparr>sent := sent st @ [[''SUB '', seg s 0, '' '', seg sid sid_len, CRLF]]\<rparr>) \<and>
       nats_subscribe e st (Some s) 0 (Some q) q_len (Some sid) sid_len =
         (net_context_send e [''SUB '', seg s 0, '' '', seg q q_len, '' '', seg sid sid_len, CRLF],
          st\<lparr>sent := sent st @
            [[''SUB '', seg s 0, '' '', seg q q_len, '' '', seg sid sid_len, CRLF]]\<rparr>)) \<and>
    (payload_len < 2 ^ 32 \<longrightarrow>
       nats_publish e st (Some s) 0 (Some r) r_len payload payload_len =
         Returns (net_context_send e [''PUB '', seg s 0, '' '', seg r r_len, '' '', dec payload_len, CRLF],
                  st\<lparr>sent := sent st @
                    [[''PUB '', seg s 0, '' '', seg r r_len, '' '', dec payload_len, CRLF]]\<rparr>))"
  using assms
  by (simp add: is_subject_valid_zero seg_zero [symmetric] nats_subscribe_def nats_publish_def
      transmitv_accepted dec_fits Let_def)


theorem zero_length_subject_is_sent_unchecked_witness:
  "is_sid_valid (Some ''abc123'') 6 \<and> (2::nat) < 2 ^ 32 \<and>
   nats_subscribe env0 state0 (Some ''a b!'') 0 None 0 (Some ''abc123'') 6 =
     (0, \<lparr>sent = [[''SUB '', ''a b!'', '' '', ''abc123'', CRLF]], delivered = []\<rparr>) \<and>
   nats_publish env0 state0 (Some ''a b!'') 0 (Some ''r'') 1 ''hi'' 2 =
     Returns (0, \<lparr>sent = [[''PUB '', ''a b!'', '' '', ''r'', '' '', ''2'', CRLF]],
                  delivered = []\<rparr>)"
proof -
  have e: "net_nbuf_get_tx env0" "\<forall>seg. net_nbuf_append env0 seg"
    by (simp_all add: env0_def)
  have d: "dec 2 = ''2''"
    by code_simp
  have g: "seg ''a b!'' 0 = ''a b!''" "seg ''abc123'' 6 = ''abc123''" "seg ''r'' 1 = ''r''"
    by (simp_all add: seg_def bytes_at_def strlen_def NUL_def)
  have n: "net_context_send env0 x = 0" for x
    by (simp add: env0_def)
  have p: "(2::nat) < 2 ^ 32"
    by simp
  note t = zero_length_subject_is_sent_unchecked
      [OF e, of "''a b!''" "''abc123''" 6 state0 "''q''" 1 2 "''r''" 1 "''hi''"]
  have s0: "nats_subscribe env0 state0 (Some ''a b!'') 0 None 0 (Some ''abc123'') 6 =
     (net_context_send env0 [''SUB '', seg ''a b!'' 0, '' '', seg ''abc123'' 6, CRLF],
      state0\<lparr>sent := sent state0 @
        [[''SUB '', seg ''a b!'' 0, '' '', seg ''abc123'' 6, CRLF]]\<rparr>)"
    using t invalid_examples(3) by blast
  have s1: "nats_subscribe env0 state0 (Some ''a b!'') 0 None 0 (Some ''abc123'') 6 =
     (0, \<lparr>sent = [[''SUB '', ''a b!'', '' '', ''abc123'', CRLF]], delivered = []\<rparr>)"
    unfolding s0 g n by (simp add: state0_def)
  have p0: "nats_publish env0 state0 (Some ''a b!'') 0 (Some ''r'') 1 ''hi'' 2 =
     Returns (net_context_send env0 [''PUB '', seg ''a b!'' 0, '' '', seg ''r'' 1, '' '', dec 2, CRLF],
              state0\<lparr>sent := sent state0 @
                [[''PUB '', seg ''a b!'' 0, '' '', seg ''r'' 1, '' '', dec 2, CRLF]]\<rparr>)"
    using t p by blast
  have p1: "nats_publish env0 state0 (Some ''a b!'') 0 (Some ''r'') 1 ''hi'' 2 =
     Returns (0, \<lparr>sent = [[''PUB '', ''a b!'', '' '', ''r'', '' '', ''2'', CRLF]],
                  delivered = []\<rparr>)"
    unfolding p0 g n d by (simp add: state0_def)
  from s1 p1 p invalid_examples(3) show ?thesis
    by blast
qed

text \<open>
  C10 as stated fails: a call with subject length zero sends nothing when the sid does not
  pass its validation, and \<open>nats_publish\<close> without a reply subject does not reach the
  transport.
\<close>

theorem zero_length_subject_counterexample:
  "nats_subscribe env0 state0 (Some ''a b!'') 0 None 0 (Some ''!'') 1 = (- EINVAL, state0) \<and>
   nats_publish env0 state0 (Some ''a b!'') 0 None 0 ''hi'' 2 = Fault"
proof -
  have "nats_subscribe env0 state0 (Some ''a b!'') 0 None 0 (Some ''!'') 1 = (- EINVAL, state0)"
    by code_simp
  moreover have "nats_publish env0 state0 (Some ''a b!'') 0 None 0 ''hi'' 2 = Fault"
    by code_simp
  ultimately show ?thesis by simp
qed

text \<open>
  C4.  \<open>nats_publish\<close> never sends the payload: its result does not depend on the
  payload bytes, and with a reply subject the packet ends behind the header line.  Without
  a reply subject it builds the size segment from the \<open>NULL\<close> reply pointer and has no
  defined result.
\<close>

theorem nats_publish_omits_payload:
  "nats_publish e st subject subject_len reply_to reply_to_len payload payload_len =
     nats_publish e st subject subject_len reply_to reply_to_len payload' payload_len \<and>
   nats_publish e st (Some ''foo'') 3 (Some ''r'') 1 ''hi'' 2 =
     Returns (transmitv e st [''PUB '', ''foo'', '' '', ''r'', '' '', ''2'', CRLF]) \<and>
   nats_publish env0 state0 (Some ''foo'') 3 (Some ''r'') 1 ''hi'' 2 =
     Returns (0, \<lparr>sent = [[''PUB '', ''foo'', '' '', ''r'', '' '', ''2'', CRLF]],
                  delivered = []\<rparr>) \<and>
   nats_publish e st (Some ''foo'') 3 None 0 ''hi'' 2 = Fault"
proof -
  have "nats_publish e st (Some ''foo'') 3 (Some ''r'') 1 ''hi'' 2 =
     Returns (transmitv e st [''PUB '', ''foo'', '' '', ''r'', '' '', ''2'', CRLF])"
    by code_simp
  moreover have "nats_publish env0 state0 (Some ''foo'') 3 (Some ''r'') 1 ''hi'' 2 =
     Returns (0, \<lparr>sent = [[''PUB '', ''foo'', '' '', ''r'', '' '', ''2'', CRLF]],
                  delivered = []\<rparr>)"
    by code_simp
  moreover have "nats_publish e st (Some ''foo'') 3 None 0 ''hi'' 2 = Fault"
    by code_simp
  moreover have "nats_publish e st subject subject_len reply_to reply_to_len payload payload_len =
     nats_publish e st subject subject_len reply_to reply_to_len payload' payload_len"
    by (simp add: nats_publish_def)
  ultimately show ?thesis by simp
qed

end
